theory Spec2Isabelle
  imports Main
begin

section \<open>JavaScript errors and call outcomes\<close>

text \<open>
  A thrown JavaScript exception is a value of the model. \<open>Error msg\<close> is
  \<^verbatim>\<open>new Error(msg)\<close>; \<open>TypeError\<close> is the engine's own error when a
  property of \<^verbatim>\<open>undefined\<close> is read.
\<close>

datatype error = Error string | TypeError

datatype 'a outcome = Returned 'a | Threw error

section \<open>Reference counter: \<^verbatim>\<open>DefaultRc\<close>\<close>

text \<open>\<^verbatim>\<open>Rc.Errors\<close>\<close>

definition RC_DISPOSED :: string where
  "RC_DISPOSED = ''this reference is disposed''"

definition REF_DISPOSED :: string where
  "REF_DISPOSED = ''the underlying reference is disposed''"

text \<open>
  The dispose callback is user code: \<^verbatim>\<open>(dispose: () => void) => RcReviveCallback | void\<close>.
  What it does with the \<^verbatim>\<open>dispose\<close> closure it receives is its own choice and may
  differ from one invocation to the next, so a callback is a function from the number of
  earlier invocations to its behaviour at this one: whether it calls the closure before it
  returns, and whether it returns a revive function. A closure that was handed out may
  also be called at any later time (operation \<open>CallDisposeFn\<close> below).
\<close>

record RcDisposeBehaviour =
  calls_dispose :: bool
  returns_revive :: bool

type_synonym RcDisposeCallback = "nat \<Rightarrow> RcDisposeBehaviour"

text \<open>
  What the reference counter does to the outside, in order. The emitter, the target and
  the two callbacks are the caller's objects: the model records each call made on them and
  takes it that they return normally and do not call back into the reference counter.
\<close>

datatype 'r rc_effect =
    ConsoleTrace string
  | WillDisposeRefFired "'r option"
  | EmitterDisposed
  | TargetDisposed 'r
  | DisposeCallbackCalled
  | ReviveCallbackCalled

text \<open>
  The first four fields are the shared \<^verbatim>\<open>DefaultRcState\<close> (\<open>reviveCallback\<close> records
  whether one is stored; \<open>ref = None\<close> is \<^verbatim>\<open>undefined\<close>). \<open>disposed\<close> holds the
  private \<^verbatim>\<open>disposed\<close> flag of every \<^verbatim>\<open>DefaultRc\<close> instance built on this state, in
  order of creation: a handle is its index. \<open>cb_calls\<close> counts the invocations of the
  dispose callback, each of which hands out one \<^verbatim>\<open>dispose\<close> closure.
\<close>

record 'r rc =
  disposeCallback :: "RcDisposeCallback option"
  reviveCallback :: bool
  count :: int
  ref :: "'r option"
  disposed :: "bool list"
  cb_calls :: nat
  effects :: "'r rc_effect list"

text \<open>The protected constructor: a new instance on an existing state.\<close>

definition constructor :: "'r rc \<Rightarrow> nat \<times> 'r rc" where
  "constructor w =
     (let w1 = w\<lparr>count := count w + 1, disposed := disposed w @ [False]\<rparr>;
          w2 = (if count w1 = 1 \<and> reviveCallback w1
                then w1\<lparr>effects := effects w1 @ [ReviveCallbackCalled], reviveCallback := False\<rparr>
                else w1)
      in (length (disposed w), w2))"

definition New :: "'r \<Rightarrow> RcDisposeCallback option \<Rightarrow> nat \<times> 'r rc" where
  "New r cb =
     constructor \<lparr>disposeCallback = cb, reviveCallback = False, count = 0, ref = Some r,
                  disposed = [], cb_calls = 0, effects = []\<rparr>"

definition isRefDisposed :: "'r rc \<Rightarrow> bool" where
  "isRefDisposed w = (ref w = None)"

definition isDisposed :: "nat \<Rightarrow> 'r rc \<Rightarrow> bool" where
  "isDisposed h w = disposed w ! h"

definition clone :: "'r rc \<Rightarrow> nat outcome \<times> 'r rc" where
  "clone w =
     (if isRefDisposed w then (Threw (Error REF_DISPOSED), w)
      else case constructor w of (h, w') \<Rightarrow> (Returned h, w'))"

text \<open>
  \<^verbatim>\<open>disposeRef\<close>: fire the event, dispose the emitter, dispose the target, clear the
  reference. When the reference is already \<^verbatim>\<open>undefined\<close> the call
  \<^verbatim>\<open>this.state.ref!.dispose()\<close> throws before any target is disposed.
\<close>

definition disposeRef :: "'r rc \<Rightarrow> unit outcome \<times> 'r rc" where
  "disposeRef w =
     (let w1 = w\<lparr>effects := effects w @ [WillDisposeRefFired (ref w), EmitterDisposed]\<rparr>
      in case ref w of
           None \<Rightarrow> (Threw TypeError, w1)
         | Some r \<Rightarrow> (Returned (), w1\<lparr>effects := effects w1 @ [TargetDisposed r], ref := None\<rparr>))"

text \<open>The closure handed to the dispose callback.\<close>

definition dispose_fn :: "'r rc \<Rightarrow> unit outcome \<times> 'r rc" where
  "dispose_fn w = (if count w = 0 then disposeRef w else (Returned (), w))"

definition dispose :: "nat \<Rightarrow> 'r rc \<Rightarrow> unit outcome \<times> 'r rc" where
  "dispose h w =
     (if isDisposed h w then (Returned (), w\<lparr>effects := effects w @ [ConsoleTrace RC_DISPOSED]\<rparr>)
      else
        let w1 = w\<lparr>disposed := (disposed w)[h := True], count := count w - 1\<rparr>
        in if count w1 = 0 then
             (case disposeCallback w1 of
                Some cb \<Rightarrow>
                  (let b = cb (cb_calls w1);
                       w2 = w1\<lparr>effects := effects w1 @ [DisposeCallbackCalled],
                               cb_calls := Suc (cb_calls w1)\<rparr>
                   in case (if calls_dispose b then dispose_fn w2 else (Returned (), w2)) of
                        (Threw e, w3) \<Rightarrow> (Threw e, w3)
                      | (Returned u, w3) \<Rightarrow>
                          (Returned (), if returns_revive b then w3\<lparr>reviveCallback := True\<rparr> else w3))
              | None \<Rightarrow> disposeRef w1)
           else (Returned (), w1))"

text \<open>\<^verbatim>\<open>ref()\<close> on a handle.\<close>

definition ref_of :: "nat \<Rightarrow> 'r rc \<Rightarrow> 'r outcome \<times> 'r rc" where
  "ref_of h w =
     (case ref w of
        None \<Rightarrow> (Threw (Error REF_DISPOSED), w)
      | Some r \<Rightarrow>
          (Returned r,
           if isDisposed h w then w\<lparr>effects := effects w @ [ConsoleTrace RC_DISPOSED]\<rparr> else w))"

text \<open>
  The calls a program can make once \<^verbatim>\<open>DefaultRc.New\<close> has returned. A handle that was
  never created cannot be called, and a \<^verbatim>\<open>dispose\<close> closure exists only after the dispose
  callback has been invoked: such an operation leaves everything as it is.
\<close>

datatype rc_op = Clone nat | Dispose nat | GetRef nat | CallDisposeFn

fun step :: "rc_op \<Rightarrow> 'r rc \<Rightarrow> 'r rc" where
  "step (Clone h) w = (if h < length (disposed w) then snd (clone w) else w)"
| "step (Dispose h) w = (if h < length (disposed w) then snd (dispose h w) else w)"
| "step (GetRef h) w = (if h < length (disposed w) then snd (ref_of h w) else w)"
| "step CallDisposeFn w = (if 0 < cb_calls w then snd (dispose_fn w) else w)"

fun run :: "rc_op list \<Rightarrow> 'r rc \<Rightarrow> 'r rc" where
  "run [] w = w"
| "run (op # ops) w = run ops (step op w)"

text \<open>How often the target's own \<^verbatim>\<open>dispose()\<close> was called.\<close>

definition target_disposals :: "'r rc \<Rightarrow> nat" where
  "target_disposals w = length (filter (\<lambda>e. case e of TargetDisposed r \<Rightarrow> True | _ \<Rightarrow> False) (effects w))"

text \<open>Handles created so far, and handles on which an effective \<^verbatim>\<open>dispose()\<close> was made.\<close>

definition handles_created :: "'r rc \<Rightarrow> nat" where
  "handles_created w = length (disposed w)"

definition handles_released :: "'r rc \<Rightarrow> nat" where
  "handles_released w = length (filter (\<lambda>d. d) (disposed w))"


text \<open>
  The calls as the program sees them. \<open>issued\<close> lists the handles that
  \<^verbatim>\<open>DefaultRc.New\<close> and each \<^verbatim>\<open>clone()\<close> that did not throw have returned, in order, so its
  length is one plus the number of such \<^verbatim>\<open>clone()\<close> calls. \<open>released\<close> lists the handles on
  which \<^verbatim>\<open>dispose()\<close> was called, each once, at its first such call. Both are kept from the
  calls and their results alone; a call is made only on a handle that was returned before.
\<close>

record 'r observed =
  world :: "'r rc"
  issued :: "nat list"
  released :: "nat list"

definition observed_New :: "'r \<Rightarrow> RcDisposeCallback option \<Rightarrow> 'r observed" where
  "observed_New r cb = (case New r cb of (h, w) \<Rightarrow> \<lparr>world = w, issued = [h], released = []\<rparr>)"

fun observed_step :: "rc_op \<Rightarrow> 'r observed \<Rightarrow> 'r observed" where
  "observed_step (Clone h) s =
     (if h \<in> set (issued s) then
        (case clone (world s) of
           (Returned h', w') \<Rightarrow> s\<lparr>world := w', issued := issued s @ [h']\<rparr>
         | (Threw e, w') \<Rightarrow> s\<lparr>world := w'\<rparr>)
      else s)"
| "observed_step (Dispose h) s =
     (if h \<in> set (issued s) then
        s\<lparr>world := snd (dispose h (world s)),
          released := (if h \<in> set (released s) then released s else released s @ [h])\<rparr>
      else s)"
| "observed_step (GetRef h) s =
     (if h \<in> set (issued s) then s\<lparr>world := snd (ref_of h (world s))\<rparr> else s)"
| "observed_step CallDisposeFn s =
     (if 0 < cb_calls (world s) then s\<lparr>world := snd (dispose_fn (world s))\<rparr> else s)"

fun observed_run :: "rc_op list \<Rightarrow> 'r observed \<Rightarrow> 'r observed" where
  "observed_run [] s = s"
| "observed_run (op # ops) s = observed_run ops (observed_step op s)"

text \<open>How the observed handles relate to the private flags of the instances.\<close>

definition obs_inv :: "'r observed \<Rightarrow> bool" where
  "obs_inv s \<longleftrightarrow>
     issued s = [0..<length (disposed (world s))]
   \<and> distinct (released s)
   \<and> set (released s) = {h. h < length (disposed (world s)) \<and> disposed (world s) ! h}"

text \<open>Handles that are not disposed yet.\<close>

definition live_handles :: "'r rc \<Rightarrow> nat" where
  "live_handles w = length (filter (\<lambda>d. \<not> d) (disposed w))"

text \<open>What holds of every state the operations can reach.\<close>

definition rc_inv :: "'r rc \<Rightarrow> bool" where
  "rc_inv w \<longleftrightarrow>
     count w = int (live_handles w)
   \<and> (ref w = None \<longrightarrow> count w = 0)
   \<and> target_disposals w = (if ref w = None then 1 else 0)
   \<and> (reviveCallback w \<longrightarrow> count w = 0 \<and> 0 < cb_calls w)
   \<and> (disposeCallback w = None \<longrightarrow> cb_calls w = 0 \<and> (count w = 0 \<longrightarrow> ref w = None))
   \<and> (count w = 0 \<longrightarrow> disposeCallback w \<noteq> None \<longrightarrow> 0 < cb_calls w)"

text \<open>
  Two dispose callbacks: one keeps the \<^verbatim>\<open>dispose\<close> closure for later and returns nothing,
  the other keeps it and returns a revive function (a debounce).
\<close>

definition deferring :: RcDisposeCallback where
  "deferring n = \<lparr>calls_dispose = False, returns_revive = False\<rparr>"

definition debouncing :: RcDisposeCallback where
  "debouncing n = \<lparr>calls_dispose = False, returns_revive = True\<rparr>"

section \<open>JavaScript values\<close>

text \<open>
  What a function typed \<^verbatim>\<open>any\<close> can return, as far as \<^verbatim>\<open>if (v)\<close> and \<^verbatim>\<open>typeof v\<close> tell
  values apart. Numbers are integers here (\<^verbatim>\<open>NaN\<close>, which is falsy too, is left out);
  \<open>JObj\<close> is any object or function.
\<close>

datatype 's jsval = JUndefined | JNull | JBool bool | JNum int | JStr string | JObj 's

fun truthy :: "'s jsval \<Rightarrow> bool" where
  "truthy JUndefined = False"
| "truthy JNull = False"
| "truthy (JBool b) = b"
| "truthy (JNum n) = (n \<noteq> 0)"
| "truthy (JStr s) = (s \<noteq> [])"
| "truthy (JObj x) = True"

section \<open>Service provider: \<^verbatim>\<open>DefaultServiceProvider\<close>\<close>

text \<open>\<^verbatim>\<open>Event.None\<close> is the only event the lifecycle handle carries.\<close>

datatype event = Event_None

record 's ServiceLifecycle =
  onDispose :: event
  onDisposeRef :: event
  track :: "'s \<Rightarrow> 's"

text \<open>\<^verbatim>\<open>ServiceLifecycleImpl\<close>: \<^verbatim>\<open>track\<close> returns its argument and keeps nothing.\<close>

definition ServiceLifecycleImpl :: "'s ServiceLifecycle" where
  "ServiceLifecycleImpl =
     \<lparr>onDispose = Event_None, onDisposeRef = Event_None, track = (\<lambda>disposable. disposable)\<rparr>"

text \<open>
  A contribution is a function, a record of factories by service id (the map gives what
  \<^verbatim>\<open>contribution[serviceId]\<close> yields), or, at run time, anything else: \<^verbatim>\<open>null\<close>, an array,
  or a value whose \<^verbatim>\<open>typeof\<close> is neither \<^verbatim>\<open>'function'\<close> nor \<^verbatim>\<open>'object'\<close>. A factory may throw.
\<close>

datatype ('s, 'p) ServiceContribution =
    ContributionFunction "string \<Rightarrow> 'p \<Rightarrow> 's ServiceLifecycle \<Rightarrow> 's jsval outcome"
  | ContributionRecord "string \<Rightarrow> ('p \<Rightarrow> 's ServiceLifecycle \<Rightarrow> 's jsval outcome) option"
  | ContributionNull
  | ContributionArray
  | ContributionOther string

datatype console_entry = ConsoleError error | ConsoleErrorMessage string

text \<open>
  The body of the \<^verbatim>\<open>try\<close> block up to the assignment of \<^verbatim>\<open>service\<close>: \<open>None\<close> is the
  \<^verbatim>\<open>continue\<close> of the unexpected-type branch.
\<close>

fun invoke :: "('s, 'p) ServiceContribution \<Rightarrow> string \<Rightarrow> 'p \<Rightarrow> 's jsval outcome option" where
  "invoke (ContributionFunction f) serviceId ps = Some (f serviceId ps ServiceLifecycleImpl)"
| "invoke (ContributionRecord r) serviceId ps =
     Some (case r serviceId of
             None \<Rightarrow> Returned JUndefined
           | Some factory \<Rightarrow> factory ps ServiceLifecycleImpl)"
| "invoke ContributionNull serviceId ps = Some (Threw TypeError)"
| "invoke ContributionArray serviceId ps = None"
| "invoke (ContributionOther ty) serviceId ps = None"

fun typeof_contribution :: "('s, 'p) ServiceContribution \<Rightarrow> string" where
  "typeof_contribution (ContributionFunction f) = ''function''"
| "typeof_contribution (ContributionOther ty) = ty"
| "typeof_contribution c = ''object''"

definition no_service_found :: "string \<Rightarrow> error" where
  "no_service_found serviceId = Error (''no service found for '' @ [CHR 0x22] @ serviceId @ [CHR 0x22])"

text \<open>
  The release function of the result pair is \<^verbatim>\<open>() => { /* TODO */ }\<close>. It acts on the
  list of objects whose \<^verbatim>\<open>dispose()\<close> has been called.
\<close>

definition release_fn :: "'s list \<Rightarrow> 's list" where
  "release_fn disposed_objects = disposed_objects"

text \<open>
  The loop of \<^verbatim>\<open>getService\<close> over the contributions that are left, with the console
  output so far.
\<close>

fun getService_loop ::
  "('s, 'p) ServiceContribution list \<Rightarrow> string \<Rightarrow> 'p \<Rightarrow> console_entry list
   \<Rightarrow> ('s jsval \<times> ('s list \<Rightarrow> 's list)) outcome \<times> console_entry list" where
  "getService_loop [] serviceId ps console = (Threw (no_service_found serviceId), console)"
| "getService_loop (contribution # rest) serviceId ps console =
     (case invoke contribution serviceId ps of
        None \<Rightarrow>
          getService_loop rest serviceId ps
            (console @ [ConsoleErrorMessage
                          (''unexpected contribution type: '' @ typeof_contribution contribution)])
      | Some (Threw e) \<Rightarrow> getService_loop rest serviceId ps (console @ [ConsoleError e])
      | Some (Returned service) \<Rightarrow>
          if truthy service then (Returned (service, release_fn), console)
          else getService_loop rest serviceId ps console)"

definition getService ::
  "('s, 'p) ServiceContribution list \<Rightarrow> string \<Rightarrow> 'p
   \<Rightarrow> ('s jsval \<times> ('s list \<Rightarrow> 's list)) outcome \<times> console_entry list" where
  "getService serviceContributions serviceId ps = getService_loop serviceContributions serviceId ps []"

text \<open>
  The claim's reading of \<^verbatim>\<open>getService\<close>, from the specification's words: the first
  contribution that returns a defined value (one that is not \<^verbatim>\<open>undefined\<close>) gives the
  result, and the call throws when there is none.
\<close>

definition returns_defined :: "('s, 'p) ServiceContribution \<Rightarrow> string \<Rightarrow> 'p \<Rightarrow> bool" where
  "returns_defined c serviceId ps =
     (case invoke c serviceId ps of Some (Returned v) \<Rightarrow> v \<noteq> JUndefined | _ \<Rightarrow> False)"

definition returns_truthy :: "('s, 'p) ServiceContribution \<Rightarrow> string \<Rightarrow> 'p \<Rightarrow> bool" where
  "returns_truthy c serviceId ps =
     (case invoke c serviceId ps of Some (Returned v) \<Rightarrow> truthy v | _ \<Rightarrow> False)"

definition returned_value :: "('s, 'p) ServiceContribution \<Rightarrow> string \<Rightarrow> 'p \<Rightarrow> 's jsval" where
  "returned_value c serviceId ps =
     (case invoke c serviceId ps of Some (Returned v) \<Rightarrow> v | _ \<Rightarrow> JUndefined)"

definition getService_first_defined ::
  "('s, 'p) ServiceContribution list \<Rightarrow> string \<Rightarrow> 'p \<Rightarrow> 's jsval outcome" where
  "getService_first_defined cs serviceId ps =
     (case List.find (\<lambda>c. returns_defined c serviceId ps) cs of
        Some c \<Rightarrow> Returned (returned_value c serviceId ps)
      | None \<Rightarrow> Threw (no_service_found serviceId))"

text \<open>The service of the result pair, or the error thrown.\<close>

definition service_of ::
  "('s jsval \<times> ('s list \<Rightarrow> 's list)) outcome \<times> console_entry list \<Rightarrow> 's jsval outcome" where
  "service_of res = (case fst res of Returned (service, release) \<Rightarrow> Returned service | Threw e \<Rightarrow> Threw e)"

text \<open>
  The terminal module's contribution for \<^verbatim>\<open>terminalsPath\<close>:
  \<^verbatim>\<open>(params, lifecycle) => lifecycle.track(remoteTerminalFactory(params.terminalId))\<close>,
  with the factory and the path as parameters.
\<close>

definition terminals_contribution ::
  "string \<Rightarrow> ('p \<Rightarrow> 's outcome) \<Rightarrow> ('s, 'p) ServiceContribution" where
  "terminals_contribution terminalsPath remoteTerminalFactory =
     ContributionRecord
       (\<lambda>key. if key = terminalsPath
               then Some (\<lambda>ps lifecycle.
                      case remoteTerminalFactory ps of
                        Threw e \<Rightarrow> Threw e
                      | Returned terminal \<Rightarrow> Returned (JObj (track lifecycle terminal)))
               else None)"


text \<open>Two contributions: a function that returns the number 0, and a record with a factory for \<^verbatim>\<open>X\<close>.\<close>

definition returns_zero :: "(nat, unit) ServiceContribution" where
  "returns_zero = ContributionFunction (\<lambda>serviceId ps lifecycle. Returned (JNum 0))"

definition returns_object :: "(nat, unit) ServiceContribution" where
  "returns_object = ContributionRecord (\<lambda>key. if key = ''X'' then Some (\<lambda>ps lifecycle. Returned (JObj 1)) else None)"

section \<open>RPC proxies: \<^verbatim>\<open>RpcProxyHandler\<close>\<close>

text \<open>A property key is a string or a symbol.\<close>

datatype property = StringKey string | SymbolKey nat

text \<open>
  What a property read can return. Functions and events are objects with an identity: the
  number is the order of allocation, so that two stubs for one method name created at
  different times are different values.
\<close>

datatype proxy_value = DisposeFunction | EventOf nat | MethodStub nat string

text \<open>What a call of such a value returns: nothing, or the promise of a request sent.\<close>

datatype call_result = Void | PromiseOfRequest nat

text \<open>
  The handler's own fields are \<open>emitters\<close>, \<open>cache\<close> and \<open>proxy_disposed\<close> (the source's
  \<^verbatim>\<open>disposed\<close>). \<open>reflection\<close> is \<^verbatim>\<open>Reflection.isEventName\<close>, which the handler receives.
  The remaining fields are the surroundings: the objects allocated so far, the emitters
  disposed and the values fired on them, and the calls made on the \<^verbatim>\<open>RpcConnection\<close>
  (\<^verbatim>\<open>sendRequest\<close> in order, and \<^verbatim>\<open>close\<close>).
\<close>

record 's RpcProxyHandler =
  reflection :: "string \<Rightarrow> bool"
  emitters :: "(string \<times> nat) list"
  cache :: "property \<Rightarrow> proxy_value option"
  proxy_disposed :: bool
  allocated :: nat
  emitters_disposed :: "nat list"
  emitters_fired :: "(nat \<times> 's jsval) list"
  requests :: "(string \<times> 's jsval list) list"
  close_calls :: nat

text \<open>\<^verbatim>\<open>Map.prototype.set\<close> on an insertion-ordered map.\<close>

fun map_set :: "'k \<Rightarrow> 'v \<Rightarrow> ('k \<times> 'v) list \<Rightarrow> ('k \<times> 'v) list" where
  "map_set k v [] = [(k, v)]"
| "map_set k v ((k', v') # kvs) = (if k = k' then (k, v) # kvs else (k', v') # map_set k v kvs)"

text \<open>The constructor; \<^verbatim>\<open>createProxy\<close> wraps a frozen empty object with it.\<close>

definition RpcProxyHandler_new :: "(string \<Rightarrow> bool) \<Rightarrow> 's RpcProxyHandler" where
  "RpcProxyHandler_new isEventName =
     \<lparr>reflection = isEventName, emitters = [],
      cache = (Map.empty)(StringKey ''dispose'' \<mapsto> DisposeFunction),
      proxy_disposed = False, allocated = 0, emitters_disposed = [], emitters_fired = [],
      requests = [], close_calls = 0\<rparr>"

definition createProxy :: "(string \<Rightarrow> bool) \<Rightarrow> 's RpcProxyHandler" where
  "createProxy isEventName = RpcProxyHandler_new isEventName"

definition invalid_proxy :: error where
  "invalid_proxy = Error ''this instance is no longer valid!''"

definition string_keys_only :: error where
  "string_keys_only = Error ''you can only index this proxy with strings''"

text \<open>The \<^verbatim>\<open>get\<close> trap.\<close>

definition RpcProxyHandler_get ::
  "property \<Rightarrow> 's RpcProxyHandler \<Rightarrow> proxy_value outcome \<times> 's RpcProxyHandler" where
  "RpcProxyHandler_get prop h =
     (if proxy_disposed h then (Threw invalid_proxy, h)
      else case prop of
        SymbolKey k \<Rightarrow> (Threw string_keys_only, h)
      | StringKey name \<Rightarrow>
          (case cache h prop of
             Some returnValue \<Rightarrow> (Returned returnValue, h)
           | None \<Rightarrow>
               if reflection h name then
                 (Returned (EventOf (allocated h)),
                  h\<lparr>emitters := map_set name (allocated h) (emitters h),
                    cache := (cache h)(prop \<mapsto> EventOf (allocated h)),
                    allocated := Suc (allocated h)\<rparr>)
               else
                 (Returned (MethodStub (allocated h) name),
                  h\<lparr>cache := (cache h)(prop \<mapsto> MethodStub (allocated h) name),
                    allocated := Suc (allocated h)\<rparr>)))"

text \<open>\<^verbatim>\<open>RpcProxyHandler.dispose\<close>, which also runs when the connection reports closed.\<close>

definition RpcProxyHandler_dispose :: "'s RpcProxyHandler \<Rightarrow> 's RpcProxyHandler" where
  "RpcProxyHandler_dispose h =
     h\<lparr>proxy_disposed := True,
       emitters_disposed := emitters_disposed h @ map snd (emitters h),
       emitters := [],
       cache := Map.empty\<rparr>"

definition onClose :: "'s RpcProxyHandler \<Rightarrow> 's RpcProxyHandler" where
  "onClose h = RpcProxyHandler_dispose h"

text \<open>The notification handler: \<^verbatim>\<open>this.emitters.get(eventName)?.fire(params[0])\<close>.\<close>

definition onNotification :: "string \<Rightarrow> 's jsval list \<Rightarrow> 's RpcProxyHandler \<Rightarrow> 's RpcProxyHandler" where
  "onNotification eventName args h =
     (case map_of (emitters h) eventName of
        None \<Rightarrow> h
      | Some emitter \<Rightarrow>
          h\<lparr>emitters_fired := emitters_fired h
               @ [(emitter, case args of [] \<Rightarrow> JUndefined | a # as \<Rightarrow> a)]\<rparr>)"

text \<open>
  Calling a value that a property read returned. The cached \<^verbatim>\<open>dispose\<close> function closes
  the connection once; a method stub is
  \<^verbatim>\<open>async (...params) => this.rpcConnection.sendRequest(property, params)\<close>, and its promise
  settles as the promise of that request does. Subscribing to an event changes nothing in
  the handler.
\<close>

fun call :: "proxy_value \<Rightarrow> 's jsval list \<Rightarrow> 's RpcProxyHandler \<Rightarrow> call_result \<times> 's RpcProxyHandler" where
  "call DisposeFunction args h =
     (Void, if \<not> proxy_disposed h
            then h\<lparr>proxy_disposed := True, close_calls := Suc (close_calls h)\<rparr>
            else h)"
| "call (MethodStub f name) args h =
     (PromiseOfRequest (length (requests h)), h\<lparr>requests := requests h @ [(name, args)]\<rparr>)"
| "call (EventOf e) args h = (Void, h)"

text \<open>
  How a promise settles, given the response the peer gives to each request (by position
  in \<open>requests\<close>).
\<close>

fun settles :: "(nat \<Rightarrow> 's jsval outcome) \<Rightarrow> call_result \<Rightarrow> 's jsval outcome" where
  "settles responses (PromiseOfRequest n) = responses n"
| "settles responses Void = Returned JUndefined"

text \<open>What can happen to a proxy after its creation.\<close>

datatype 's proxy_event =
    Read property
  | Call proxy_value "'s jsval list"
  | ConnectionClosed
  | Notification string "'s jsval list"

fun proxy_step :: "'s proxy_event \<Rightarrow> 's RpcProxyHandler \<Rightarrow> 's RpcProxyHandler" where
  "proxy_step (Read prop) h = snd (RpcProxyHandler_get prop h)"
| "proxy_step (Call v args) h = snd (call v args h)"
| "proxy_step ConnectionClosed h = onClose h"
| "proxy_step (Notification eventName args) h = onNotification eventName args h"

fun proxy_run :: "'s proxy_event list \<Rightarrow> 's RpcProxyHandler \<Rightarrow> 's RpcProxyHandler" where
  "proxy_run [] h = h"
| "proxy_run (e # es) h = proxy_run es (proxy_step e h)"

text \<open>
  While the proxy is valid, the cache holds the \<^verbatim>\<open>dispose\<close> function under
  \<^verbatim>\<open>'dispose'\<close> and, under any other name, only what \<^verbatim>\<open>get\<close> stored there.
\<close>

definition cache_ok :: "'s RpcProxyHandler \<Rightarrow> bool" where
  "cache_ok h \<longleftrightarrow>
     (\<not> proxy_disposed h \<longrightarrow>
        cache h (StringKey ''dispose'') = Some DisposeFunction
      \<and> (\<forall>name v. name \<noteq> ''dispose'' \<longrightarrow> cache h (StringKey name) = Some v \<longrightarrow>
            (if reflection h name then \<exists>e. v = EventOf e else \<exists>f. v = MethodStub f name)))"

text \<open>
  \<^verbatim>\<open>Reflection.isEventName\<close> is not part of the sources and stays a parameter throughout;
  this naming convention (names that begin with \<^verbatim>\<open>on\<close>) serves as an instance.
\<close>

definition on_prefixed :: "string \<Rightarrow> bool" where
  "on_prefixed name = (take 2 name = ''on'')"

section \<open>Route handlers: \<^verbatim>\<open>DefaultRouteHandlerProvider\<close>\<close>

text \<open>
  The inbound parameters are an object with an optional \<^verbatim>\<open>path\<close> (any value at run time)
  and whatever else the caller put there. The routed parameters are
  \<^verbatim>\<open>{ ...params, route: { spec, params: routeParams } }\<close>.
\<close>

record RouteHandlerParams =
  spec :: string
  params :: "(string \<times> string) list"

record ('s, 'x) connection_params =
  path :: "'s jsval"
  others :: 'x

record ('s, 'x) routed_params = "('s, 'x) connection_params" +
  route :: RouteHandlerParams

text \<open>\<^verbatim>\<open>paramsContainsPath\<close>: \<^verbatim>\<open>typeof params.path === 'string'\<close>.\<close>

fun paramsContainsPath :: "'s jsval \<Rightarrow> bool" where
  "paramsContainsPath (JStr p) = True"
| "paramsContainsPath v = False"

text \<open>
  \<^verbatim>\<open>createRouteHandler\<close>. \<open>Route\<close> is the constructor of the route-parser package:
  \<open>Route pattern\<close> is the matcher, which gives the named segments of a path that matches and
  \<open>None\<close> (\<^verbatim>\<open>false\<close>) for one that does not. A handler is a function of the parameters,
  \<^verbatim>\<open>accept\<close> and \<^verbatim>\<open>next\<close> to what it does; \<^verbatim>\<open>next()\<close> is \<open>next None\<close> and
  \<^verbatim>\<open>next(error)\<close> is \<open>next (Some error)\<close>.
\<close>

definition createRouteHandler ::
  "(string \<Rightarrow> string \<Rightarrow> (string \<times> string) list option) \<Rightarrow> string
   \<Rightarrow> (('s, 'x) routed_params \<Rightarrow> 'a \<Rightarrow> (error option \<Rightarrow> 'r) \<Rightarrow> 'r)
   \<Rightarrow> (('s, 'x) connection_params \<Rightarrow> 'a \<Rightarrow> (error option \<Rightarrow> 'r) \<Rightarrow> 'r)" where
  "createRouteHandler Route pattern handler =
     (let routeMatcher = Route pattern
      in (\<lambda>ps accept next.
            case path ps of
              JStr p \<Rightarrow>
                (case routeMatcher p of
                   None \<Rightarrow> next None
                 | Some routeParams \<Rightarrow>
                     handler \<lparr>path = path ps, others = others ps,
                              route = \<lparr>spec = pattern, params = routeParams\<rparr>\<rparr> accept next)
            | v \<Rightarrow> next None))"

text \<open>
  Modelled from the spec: the pattern language of the route-parser package, which is not
  part of the sources, for patterns made of literal segments and \<^verbatim>\<open>:name\<close> placeholders.
  A placeholder matches one non-empty segment and binds it to its name.
\<close>

fun segments :: "string \<Rightarrow> string list" where
  "segments [] = [[]]"
| "segments (c # cs) =
     (if c = CHR ''/'' then [] # segments cs
      else case segments cs of seg # segs \<Rightarrow> (c # seg) # segs | [] \<Rightarrow> [[c]])"

fun match_segments :: "string list \<Rightarrow> string list \<Rightarrow> (string \<times> string) list option" where
  "match_segments [] [] = Some []"
| "match_segments (p # ps) (s # ss) =
     (case p of
        c # name \<Rightarrow>
          if c = CHR '':'' then
            (if s = [] then None
             else case match_segments ps ss of None \<Rightarrow> None | Some m \<Rightarrow> Some ((name, s) # m))
          else if p = s then match_segments ps ss else None
      | [] \<Rightarrow> if s = [] then match_segments ps ss else None)"
| "match_segments ps ss = None"

definition segment_route :: "string \<Rightarrow> string \<Rightarrow> (string \<times> string) list option" where
  "segment_route pattern p = match_segments (segments pattern) (segments p)"

section \<open>The backend-proxying connection: \<^verbatim>\<open>FrontendServiceConnectionProvider\<close>\<close>

text \<open>
  The \<^verbatim>\<open>Deferred\<close> class is not part of the sources, so the handler is stated over any
  implementation of it. The handler reads \<^verbatim>\<open>state\<close> and calls \<^verbatim>\<open>resolve\<close>; \<open>reactions\<close>
  is what the promise reactions that the class has registered do to it when the job that
  is running ends. \<open>'d\<close> is the type of its instances.
\<close>

datatype DeferredState = Unresolved | Resolved | Rejected

record ('c, 'd) DeferredClass =
  state :: "'d \<Rightarrow> DeferredState"
  resolve :: "'c \<Rightarrow> 'd \<Rightarrow> 'd"
  reactions :: "'d \<Rightarrow> 'd"

















section \<open>Properties of the reference counter\<close>

lemma live_update:
  "h < length xs \<Longrightarrow> \<not> xs ! h \<Longrightarrow>
   Suc (length (filter (\<lambda>d. \<not> d) (xs[h := True]))) = length (filter (\<lambda>d. \<not> d) xs)"
proof (induction xs arbitrary: h)
  case Nil
  then show ?case by simp
next
  case (Cons x xs)
  then show ?case by (cases h) auto
qed

lemma released_update:
  "h < length xs \<Longrightarrow> \<not> xs ! h \<Longrightarrow>
   length (filter (\<lambda>d. d) (xs[h := True])) = Suc (length (filter (\<lambda>d. d) xs))"
proof (induction xs arbitrary: h)
  case Nil
  then show ?case by simp
next
  case (Cons x xs)
  then show ?case by (cases h) auto
qed

lemma rc_inv_New: "rc_inv (snd (New r cb))"
  by (simp add: rc_inv_def New_def constructor_def live_handles_def target_disposals_def Let_def)

lemma rc_inv_constructor: "rc_inv w \<Longrightarrow> ref w \<noteq> None \<Longrightarrow> rc_inv (snd (constructor w))"
  by (auto simp: rc_inv_def constructor_def live_handles_def target_disposals_def Let_def)

lemma rc_inv_clone: "rc_inv w \<Longrightarrow> rc_inv (snd (clone w))"
  using rc_inv_constructor [of w]
  by (auto simp: clone_def isRefDisposed_def split: prod.splits)

lemma rc_inv_disposeRef: "rc_inv w \<Longrightarrow> count w = 0 \<Longrightarrow> rc_inv (snd (disposeRef w))"
  by (auto simp: rc_inv_def disposeRef_def live_handles_def target_disposals_def Let_def split: option.splits)

lemma rc_inv_dispose_fn: "rc_inv w \<Longrightarrow> rc_inv (snd (dispose_fn w))"
  by (simp add: dispose_fn_def rc_inv_disposeRef)

lemma rc_inv_ref_of: "rc_inv w \<Longrightarrow> rc_inv (snd (ref_of h w))"
  by (auto simp: rc_inv_def ref_of_def live_handles_def target_disposals_def split: option.splits)

lemma rc_inv_dispose:
  assumes "rc_inv w" "h < length (disposed w)"
  shows "rc_inv (snd (dispose h w))"
proof (cases "isDisposed h w")
  case True
  with assms(1) show ?thesis
    by (auto simp: dispose_def rc_inv_def live_handles_def target_disposals_def)
next
  case False
  define w1 where "w1 = w\<lparr>disposed := (disposed w)[h := True], count := count w - 1\<rparr>"
  from False assms have live: "Suc (live_handles w1) = live_handles w"
    by (simp add: w1_def live_handles_def isDisposed_def live_update)
  with assms(1) have c1: "count w1 = int (live_handles w1)"
    by (simp add: w1_def rc_inv_def)
  from live assms(1) have refw: "ref w \<noteq> None"
    by (auto simp: rc_inv_def)
  have inv1: "count w1 \<noteq> 0 \<Longrightarrow> rc_inv w1"
    using assms(1) c1 refw by (auto simp: rc_inv_def w1_def target_disposals_def)
  show ?thesis
  proof (cases "count w1 = 0")
    case nz: False
    with False inv1 show ?thesis
      by (simp add: dispose_def Let_def w1_def [symmetric])
  next
    case z: True
    show ?thesis
    proof (cases "disposeCallback w")
      case None
      have "rc_inv (snd (disposeRef w1))"
        using assms(1) c1 refw z None
        by (auto simp: rc_inv_def w1_def disposeRef_def target_disposals_def live_handles_def Let_def
            split: option.splits)
      with False z None show ?thesis
        by (simp add: dispose_def Let_def w1_def [symmetric]) (simp add: w1_def)
    next
      case (Some cb)
      define w2 where "w2 = w1\<lparr>effects := effects w1 @ [DisposeCallbackCalled], cb_calls := Suc (cb_calls w1)\<rparr>"
      have inv2: "rc_inv w2"
        using assms(1) c1 refw z Some
        by (auto simp: rc_inv_def w1_def w2_def target_disposals_def live_handles_def)
      have c2: "count w2 = 0" using z by (simp add: w2_def)
      have inv3: "rc_inv (snd (dispose_fn w2))" using inv2 by (rule rc_inv_dispose_fn)
      have c3: "count (snd (dispose_fn w2)) = 0" "0 < cb_calls (snd (dispose_fn w2))"
        using c2 by (auto simp: dispose_fn_def disposeRef_def Let_def w2_def split: option.splits)
      have rev: "\<And>v. rc_inv v \<Longrightarrow> count v = 0 \<Longrightarrow> 0 < cb_calls v \<Longrightarrow> rc_inv (v\<lparr>reviveCallback := True\<rparr>)"
        by (auto simp: rc_inv_def target_disposals_def live_handles_def)
      have cb2: "0 < cb_calls w2" by (simp add: w2_def)
      have dc: "disposeCallback w1 = Some cb" using Some by (simp add: w1_def)
      show ?thesis
        using False z dc inv2 inv3 c2 c3 cb2 rev
        by (auto simp: dispose_def Let_def w1_def [symmetric] w2_def [symmetric] split: prod.splits outcome.splits)
    qed
  qed
qed

lemma rc_inv_step: "rc_inv w \<Longrightarrow> rc_inv (step op w)"
  by (cases op) (simp_all add: rc_inv_clone rc_inv_dispose rc_inv_ref_of rc_inv_dispose_fn)

lemma rc_inv_run: "rc_inv w \<Longrightarrow> rc_inv (run ops w)"
  by (induction ops arbitrary: w) (simp_all add: rc_inv_step)

lemma released_live: "handles_released w + live_handles w = handles_created w"
  by (simp add: handles_released_def live_handles_def handles_created_def sum_length_filter_compl)

lemma disposeCallback_step: "disposeCallback (step op w) = disposeCallback w"
  by (cases op)
     (auto simp: clone_def constructor_def dispose_def dispose_fn_def disposeRef_def ref_of_def
        Let_def split: option.splits prod.splits outcome.splits)

lemma disposeCallback_run: "disposeCallback (run ops w) = disposeCallback w"
  by (induction ops arbitrary: w) (simp_all add: disposeCallback_step)

lemma ref_None_step: "ref w = None \<Longrightarrow> ref (step op w) = None"
  by (cases op)
     (auto simp: clone_def isRefDisposed_def dispose_def dispose_fn_def disposeRef_def ref_of_def
        Let_def split: option.splits prod.splits outcome.splits)

lemma ref_None_run: "ref w = None \<Longrightarrow> ref (run ops w) = None"
  by (induction ops arbitrary: w) (simp_all add: ref_None_step)

lemma rc_inv_reachable: "rc_inv (run ops (snd (New r cb)))"
  by (simp add: rc_inv_New rc_inv_run)

lemma disposeCallback_New: "disposeCallback (snd (New r cb)) = cb"
  by (simp add: New_def constructor_def Let_def)

lemma disposed_dispose:
  "disposed (snd (dispose h w)) = (if disposed w ! h then disposed w else (disposed w)[h := True])"
  by (auto simp: dispose_def isDisposed_def dispose_fn_def disposeRef_def Let_def
      split: option.splits prod.splits outcome.splits)

lemma disposed_dispose_fn: "disposed (snd (dispose_fn w)) = disposed w"
  by (auto simp: dispose_fn_def disposeRef_def Let_def split: option.splits)

lemma disposed_ref_of: "disposed (snd (ref_of h w)) = disposed w"
  by (auto simp: ref_of_def split: option.splits)

lemma flags_update:
  "h < length xs \<Longrightarrow>
   {k. k < length xs \<and> xs[h := True] ! k} = insert h {k. k < length xs \<and> xs ! k}"
  by (auto simp: nth_list_update)

lemma flags_append:
  "{k. k < Suc (length xs) \<and> (xs @ [False]) ! k} = {k. k < length xs \<and> xs ! k}"
  by (auto simp: nth_append less_Suc_eq nth_Cons')

lemma obs_inv_New: "obs_inv (observed_New r cb)"
  by (auto simp: obs_inv_def observed_New_def New_def constructor_def Let_def)

lemma obs_inv_step: "obs_inv s \<Longrightarrow> obs_inv (observed_step op s)"
proof (cases op)
  case (Clone h)
  assume inv: "obs_inv s"
  show ?thesis
  proof (cases "h \<in> set (issued s) \<and> \<not> isRefDisposed (world s)")
    case True
    with inv Clone show ?thesis
      by (simp add: obs_inv_def clone_def constructor_def Let_def flags_append)
  next
    case False
    with inv Clone show ?thesis
      by (auto simp: obs_inv_def clone_def)
  qed
next
  case (Dispose h)
  assume inv: "obs_inv s"
  show ?thesis
  proof (cases "h \<in> set (issued s)")
    case False
    with inv Dispose show ?thesis by simp
  next
    case True
    with inv have h: "h < length (disposed (world s))" by (simp add: obs_inv_def)
    show ?thesis
    proof (cases "disposed (world s) ! h")
      case True
      with h inv have "h \<in> set (released s)" by (simp add: obs_inv_def)
      with True inv Dispose \<open>h \<in> set (issued s)\<close> show ?thesis
        by (simp add: obs_inv_def disposed_dispose)
    next
      case False
      with inv have "h \<notin> set (released s)" by (simp add: obs_inv_def)
      with False inv Dispose \<open>h \<in> set (issued s)\<close> h show ?thesis
        by (simp add: obs_inv_def disposed_dispose flags_update)
    qed
  qed
next
  case (GetRef h)
  assume "obs_inv s"
  with GetRef show ?thesis by (simp add: obs_inv_def disposed_ref_of)
next
  case CallDisposeFn
  assume "obs_inv s"
  with CallDisposeFn show ?thesis by (simp add: obs_inv_def disposed_dispose_fn)
qed

lemma world_observed_step: "obs_inv s \<Longrightarrow> world (observed_step op s) = step op (world s)"
proof (cases op)
  case (Clone h)
  assume "obs_inv s"
  with Clone show ?thesis
    by (auto simp: obs_inv_def split: prod.splits outcome.splits)
next
  case (Dispose h)
  assume "obs_inv s"
  with Dispose show ?thesis by (auto simp: obs_inv_def)
next
  case (GetRef h)
  assume "obs_inv s"
  with GetRef show ?thesis by (auto simp: obs_inv_def)
next
  case CallDisposeFn
  then show ?thesis by simp
qed

lemma observed_run_inv:
  "obs_inv s \<Longrightarrow> obs_inv (observed_run ops s) \<and> world (observed_run ops s) = run ops (world s)"
proof (induction ops arbitrary: s)
  case Nil
  then show ?case by simp
next
  case (Cons op ops)
  from Cons.prems have "obs_inv (observed_step op s)" by (rule obs_inv_step)
  from Cons.IH [OF this] Cons.prems show ?case by (simp add: world_observed_step)
qed

lemma world_observed_New: "world (observed_New r cb) = snd (New r cb)"
  by (simp add: observed_New_def split: prod.splits)

lemma obs_inv_counts:
  assumes "obs_inv s"
  shows "distinct (issued s)"
    and "length (issued s) = handles_created (world s)"
    and "length (released s) = handles_released (world s)"
proof -
  from assms show "distinct (issued s)" by (simp add: obs_inv_def)
  from assms show "length (issued s) = handles_created (world s)"
    by (simp add: obs_inv_def handles_created_def)
  from assms have "distinct (released s)" by (simp add: obs_inv_def)
  then have "length (released s) = card (set (released s))"
    by (rule distinct_card [symmetric])
  also from assms have "\<dots> = card {h. h < length (disposed (world s)) \<and> disposed (world s) ! h}"
    by (simp add: obs_inv_def)
  also have "\<dots> = handles_released (world s)"
    by (simp add: handles_released_def length_filter_conv_card)
  finally show "length (released s) = handles_released (world s)" .
qed

text \<open>
  Claim C1, as stated, fails for an Rc with a dispose callback that defers: after
  \<^verbatim>\<open>dispose()\<close> on its only handle, the number of disposed handles equals the number of
  handles created, and the target's \<^verbatim>\<open>dispose()\<close> has not been called.
\<close>

theorem rc_all_released_not_disposed_counterexample:
  "length (released (observed_run [Dispose 0] (observed_New (7::nat) (Some deferring))))
     = length (issued (observed_run [Dispose 0] (observed_New (7::nat) (Some deferring))))
   \<and> target_disposals (world (observed_run [Dispose 0] (observed_New (7::nat) (Some deferring)))) = 0"
  by (simp add: observed_New_def New_def constructor_def dispose_def isDisposed_def deferring_def
      target_disposals_def Let_def)

text \<open>
  Claim C1, amended. Take any resource wrapped by \<^verbatim>\<open>DefaultRc.New\<close>, with or without a
  dispose callback, and any finite sequence of calls on the handles returned. Every
  \<^verbatim>\<open>clone()\<close> that returns gives a handle different from all earlier ones. The target's
  \<^verbatim>\<open>dispose()\<close> has been called at most once, and when it has been called, the number of
  \<^verbatim>\<open>dispose()\<close> calls on distinct handles equals the number of handles created (the first
  one and one for each \<^verbatim>\<open>clone()\<close>). Without a dispose callback the target has been
  disposed exactly once when the two numbers are equal and not at all otherwise. With a
  dispose callback the target is disposed exactly once as soon as a \<^verbatim>\<open>dispose\<close> closure
  handed to the callback has run while the two numbers are equal.
\<close>

theorem rc_target_disposed_once:
  "distinct (issued (observed_run ops (observed_New r cb)))
   \<and> target_disposals (world (observed_run ops (observed_New r cb))) \<le> 1
   \<and> (target_disposals (world (observed_run ops (observed_New r cb))) = 1 \<longrightarrow>
        length (released (observed_run ops (observed_New r cb)))
          = length (issued (observed_run ops (observed_New r cb))))
   \<and> (cb = None \<longrightarrow>
        target_disposals (world (observed_run ops (observed_New r cb)))
          = (if length (released (observed_run ops (observed_New r cb)))
                = length (issued (observed_run ops (observed_New r cb)))
             then 1 else 0))
   \<and> (length (released (observed_run ops (observed_New r cb)))
         = length (issued (observed_run ops (observed_New r cb))) \<longrightarrow>
        target_disposals (world (observed_step CallDisposeFn (observed_run ops (observed_New r cb)))) = 1)"
proof -
  define s where "s = observed_run ops (observed_New r cb)"
  define w where "w = world s"
  have oinv: "obs_inv s" and ws: "w = run ops (snd (New r cb))"
    using observed_run_inv [OF obs_inv_New, of ops r cb]
    by (simp_all add: s_def w_def world_observed_New)
  have inv: "rc_inv w" unfolding ws by (rule rc_inv_reachable)
  have dc: "disposeCallback w = cb"
    unfolding ws by (simp add: disposeCallback_run disposeCallback_New)
  note counts = obs_inv_counts [OF oinv, folded w_def]
  have live: "live_handles w = 0 \<longleftrightarrow> length (released s) = length (issued s)"
    using released_live [of w] counts by arith
  have a: "target_disposals w \<le> 1" using inv by (simp add: rc_inv_def)
  have b: "target_disposals w = 1 \<longrightarrow> length (released s) = length (issued s)"
    using inv live by (auto simp: rc_inv_def split: if_splits)
  have c: "cb = None \<longrightarrow>
      target_disposals w = (if length (released s) = length (issued s) then 1 else 0)"
    using inv live dc by (auto simp: rc_inv_def)
  have d: "target_disposals (world (observed_step CallDisposeFn s)) = 1"
    if "length (released s) = length (issued s)"
  proof (cases "0 < cb_calls w")
    case True
    from that live inv have "count w = 0" by (simp add: rc_inv_def)
    with True have "world (observed_step CallDisposeFn s) = snd (disposeRef w)"
      by (simp add: dispose_fn_def w_def)
    then show ?thesis
      using inv
      by (auto simp: rc_inv_def disposeRef_def target_disposals_def Let_def split: option.splits)
  next
    case False
    with inv that live have "ref w = None" by (auto simp: rc_inv_def)
    with inv False show ?thesis by (simp add: rc_inv_def w_def)
  qed
  from counts(1) a b c d show ?thesis unfolding w_def s_def by blast
qed

text \<open>One clone, a repeated \<^verbatim>\<open>dispose()\<close>, before and after the last handle is released.\<close>

theorem rc_target_disposed_once_witness:
  "issued (observed_run [Clone 0, Dispose 0, Dispose 0, Dispose 1] (observed_New (7::nat) None)) = [0, 1]
   \<and> released (observed_run [Clone 0, Dispose 0, Dispose 0, Dispose 1] (observed_New (7::nat) None)) = [0, 1]
   \<and> target_disposals (world (observed_run [Clone 0, Dispose 0, Dispose 0, Dispose 1] (observed_New (7::nat) None))) = 1
   \<and> target_disposals (world (observed_run [Clone 0, Dispose 0, Dispose 0] (observed_New (7::nat) None))) = 0"
proof -
  let ?s = "observed_run [Clone 0, Dispose 0, Dispose 0, Dispose 1] (observed_New (7::nat) None)"
  let ?t = "observed_run [Clone 0, Dispose 0, Dispose 0] (observed_New (7::nat) None)"
  have i: "issued ?s = [0, 1]" and r: "released ?s = [0, 1]"
    by (simp_all add: observed_New_def New_def constructor_def clone_def dispose_def
        disposeRef_def isRefDisposed_def isDisposed_def Let_def)
  have i': "issued ?t = [0, 1]" and r': "released ?t = [0]"
    by (simp_all add: observed_New_def New_def constructor_def clone_def dispose_def
        disposeRef_def isRefDisposed_def isDisposed_def Let_def)
  from i r have eq: "length (released ?s) = length (issued ?s)" by simp
  from i' r' have neq: "length (released ?t) \<noteq> length (issued ?t)" by simp
  from rc_target_disposed_once [of "[Clone 0, Dispose 0, Dispose 0, Dispose 1]" "7::nat" None] eq
  have 1: "target_disposals (world ?s) = 1" by (simp only: refl if_True simp_thms)
  from rc_target_disposed_once [of "[Clone 0, Dispose 0, Dispose 0]" "7::nat" None] neq
  have 2: "target_disposals (world ?t) = 0" by (simp only: refl if_False simp_thms)
  from i r 1 2 show ?thesis by blast
qed

text \<open>
  Claim C3, as stated, fails while a disposal is deferred: after the only handle of an Rc
  with a deferring dispose callback is disposed, the count is 0 and the target is still
  there.
\<close>

theorem rc_target_iff_count_counterexample:
  "\<not> (ref (run [Dispose 0] (snd (New (7::nat) (Some deferring)))) \<noteq> None
       \<longleftrightarrow> 0 < count (run [Dispose 0] (snd (New (7::nat) (Some deferring)))))"
  by (simp add: New_def constructor_def dispose_def isDisposed_def deferring_def Let_def)

text \<open>
  Claim C3, amended. In every state reachable from \<^verbatim>\<open>DefaultRc.New\<close>, with any dispose
  callback: a positive count implies that the target is there; without a dispose callback
  the target is there if and only if the count is positive; and a target that was cleared
  stays cleared whatever is called afterwards.
\<close>

theorem rc_target_count_invariant:
  "(0 < count (run ops (snd (New r cb))) \<longrightarrow> ref (run ops (snd (New r cb))) \<noteq> None)
   \<and> (cb = None \<longrightarrow>
        (ref (run ops (snd (New r cb))) \<noteq> None \<longleftrightarrow> 0 < count (run ops (snd (New r cb)))))
   \<and> (ref (run ops (snd (New r cb))) = None \<longrightarrow>
        ref (run later (run ops (snd (New r cb)))) = None)"
proof -
  define w where "w = run ops (snd (New r cb))"
  have inv: "rc_inv w" unfolding w_def by (rule rc_inv_reachable)
  have dc: "disposeCallback w = cb"
    unfolding w_def by (simp add: disposeCallback_run disposeCallback_New)
  have "0 < count w \<longrightarrow> ref w \<noteq> None" using inv by (auto simp: rc_inv_def)
  moreover have "cb = None \<longrightarrow> (ref w \<noteq> None \<longleftrightarrow> 0 < count w)"
    using inv dc by (auto simp: rc_inv_def)
  moreover have "ref w = None \<longrightarrow> ref (run later w) = None" by (simp add: ref_None_run)
  ultimately show ?thesis unfolding w_def by blast
qed

text \<open>One clone on a live handle, and one clone after the only handle was released.\<close>

theorem rc_target_count_invariant_witness:
  "0 < count (run [Clone 0] (snd (New (7::nat) None)))
   \<and> ref (run [Clone 0] (snd (New (7::nat) None))) \<noteq> None
   \<and> ref (run [Dispose 0] (snd (New (7::nat) None))) = None
   \<and> ref (run [Clone 0] (run [Dispose 0] (snd (New (7::nat) None)))) = None"
proof -
  have a: "0 < count (run [Clone 0] (snd (New (7::nat) None)))"
    by (simp add: New_def constructor_def clone_def isRefDisposed_def Let_def)
  have b: "ref (run [Dispose 0] (snd (New (7::nat) None))) = None"
    by (simp add: New_def constructor_def dispose_def disposeRef_def isDisposed_def Let_def)
  from a rc_target_count_invariant [of "[Clone 0]" "7::nat" None]
  have 1: "ref (run [Clone 0] (snd (New (7::nat) None))) \<noteq> None" by blast
  from b rc_target_count_invariant [of "[Dispose 0]" "7::nat" None "[Clone 0]"]
  have 2: "ref (run [Clone 0] (run [Dispose 0] (snd (New (7::nat) None)))) = None" by blast
  from a b 1 2 show ?thesis by blast
qed

text \<open>
  Claim C5. In a reachable state of an Rc with a dispose callback where the count is 0, a
  revive function is stored and the target is not disposed yet, taking a new reference
  calls the revive function and nothing else, leaves the target undisposed with count 1,
  and turns a call of the deferred \<^verbatim>\<open>dispose\<close> closure into a no-op. From there on the
  target is disposed at most once, and once every handle has been released a call of the
  \<^verbatim>\<open>dispose\<close> closure leaves it disposed exactly once.
\<close>

theorem rc_revive_prevents_disposal:
  assumes w: "w = run ops (snd (New r (Some cb)))"
      and zero: "count w = 0" and revive: "reviveCallback w" and live: "ref w \<noteq> None"
      and h: "h < length (disposed w)"
  shows "effects (step (Clone h) w) = effects w @ [ReviveCallbackCalled]
       \<and> target_disposals (step (Clone h) w) = 0
       \<and> ref (step (Clone h) w) = ref w
       \<and> count (step (Clone h) w) = 1
       \<and> step CallDisposeFn (step (Clone h) w) = step (Clone h) w
       \<and> target_disposals (run later (step (Clone h) w)) \<le> 1
       \<and> (handles_released (run later (step (Clone h) w)) = handles_created (run later (step (Clone h) w))
            \<longrightarrow> target_disposals (step CallDisposeFn (run later (step (Clone h) w))) = 1)"
proof -
  have inv: "rc_inv w" unfolding w by (rule rc_inv_reachable)
  define w1 where "w1 = step (Clone h) w"
  have inv1: "rc_inv w1" unfolding w1_def using inv by (rule rc_inv_step)
  have e1: "effects w1 = effects w @ [ReviveCallbackCalled]"
    and r1: "ref w1 = ref w" and c1: "count w1 = 1"
    using zero revive live h
    by (simp_all add: w1_def clone_def isRefDisposed_def constructor_def Let_def)
  have t1: "target_disposals w1 = 0" using inv1 r1 live by (simp add: rc_inv_def)
  have s1: "step CallDisposeFn w1 = w1" using c1 by (simp add: dispose_fn_def)
  define w2 where "w2 = run later w1"
  have inv2: "rc_inv w2" unfolding w2_def using inv1 by (rule rc_inv_run)
  have "disposeCallback w1 = disposeCallback w" unfolding w1_def by (rule disposeCallback_step)
  then have dc2: "disposeCallback w2 = Some cb"
    by (simp add: w2_def w disposeCallback_run disposeCallback_New)
  have t2: "target_disposals w2 \<le> 1" using inv2 by (simp add: rc_inv_def)
  have t3: "target_disposals (step CallDisposeFn w2) = 1"
    if "handles_released w2 = handles_created w2"
  proof -
    from that have "live_handles w2 = 0" using released_live [of w2] by arith
    with inv2 have c: "count w2 = 0" by (simp add: rc_inv_def)
    with inv2 dc2 have "0 < cb_calls w2" by (simp add: rc_inv_def)
    with c have st: "step CallDisposeFn w2 = snd (disposeRef w2)" by (simp add: dispose_fn_def)
    show ?thesis
      using inv2 unfolding st
      by (auto simp: rc_inv_def disposeRef_def target_disposals_def Let_def split: option.splits)
  qed
  show ?thesis
    using e1 t1 r1 c1 s1 t2 t3 unfolding w2_def w1_def by blast
qed

text \<open>A debouncing callback, one release, one revival, and the final release.\<close>

theorem rc_revive_prevents_disposal_witness:
  "count (run [Dispose 0] (snd (New (7::nat) (Some debouncing)))) = 0
   \<and> reviveCallback (run [Dispose 0] (snd (New (7::nat) (Some debouncing))))
   \<and> ref (run [Dispose 0] (snd (New (7::nat) (Some debouncing)))) \<noteq> None
   \<and> effects (step (Clone 0) (run [Dispose 0] (snd (New (7::nat) (Some debouncing)))))
       = [DisposeCallbackCalled, ReviveCallbackCalled]
   \<and> target_disposals (step CallDisposeFn (run [Dispose 1]
        (step (Clone 0) (run [Dispose 0] (snd (New (7::nat) (Some debouncing))))))) = 1"
proof -
  let ?w = "run [Dispose 0] (snd (New (7::nat) (Some debouncing)))"
  have a: "count ?w = 0" "reviveCallback ?w" "ref ?w \<noteq> None" "0 < length (disposed ?w)"
    and e: "effects ?w = [DisposeCallbackCalled]"
    by (simp_all add: New_def constructor_def dispose_def isDisposed_def debouncing_def Let_def)
  have rel: "handles_released (run [Dispose 1] (step (Clone 0) ?w))
           = handles_created (run [Dispose 1] (step (Clone 0) ?w))"
    by (simp add: New_def constructor_def dispose_def isDisposed_def debouncing_def Let_def
        clone_def isRefDisposed_def handles_released_def handles_created_def)
  note t = rc_revive_prevents_disposal [OF refl a, of "[Dispose 1]"]
  from t have "effects (step (Clone 0) ?w) = effects ?w @ [ReviveCallbackCalled]" by blast
  with e have e': "effects (step (Clone 0) ?w) = [DisposeCallbackCalled, ReviveCallbackCalled]"
    by simp
  from t rel have "target_disposals (step CallDisposeFn (run [Dispose 1] (step (Clone 0) ?w))) = 1"
    by blast
  with a e' show ?thesis by blast
qed

section \<open>Properties of the service provider\<close>

lemma getService_loop_first_truthy:
  "fst (getService_loop cs serviceId ps console) =
     (case List.find (\<lambda>c. returns_truthy c serviceId ps) cs of
        Some c \<Rightarrow> Returned (returned_value c serviceId ps, release_fn)
      | None \<Rightarrow> Threw (no_service_found serviceId))"
proof (induction cs arbitrary: console)
  case Nil
  show ?case by simp
next
  case (Cons c cs)
  show ?case
  proof (cases "invoke c serviceId ps")
    case None
    then show ?thesis by (simp add: Cons.IH returns_truthy_def)
  next
    case (Some res)
    show ?thesis
    proof (cases res)
      case (Threw e)
      with Some show ?thesis by (simp add: Cons.IH returns_truthy_def)
    next
      case (Returned v)
      with Some show ?thesis by (simp add: Cons.IH returns_truthy_def returned_value_def)
    qed
  qed
qed

text \<open>
  Claim C4, amended. \<^verbatim>\<open>getService\<close> goes through the contributions in registration
  order; the first one whose call returns a truthy value gives the service of the result
  (a contribution that throws, that returns \<^verbatim>\<open>undefined\<close>, \<^verbatim>\<open>null\<close>, \<^verbatim>\<open>false\<close>, \<^verbatim>\<open>0\<close>
  or the empty string, or that is neither a function nor a record is passed over); when
  there is none the call throws the error with message
  \<^verbatim>\<open>no service found for "<serviceId>"\<close>.
\<close>

theorem getService_first_truthy:
  "fst (getService cs serviceId ps) =
     (case List.find (\<lambda>c. returns_truthy c serviceId ps) cs of
        Some c \<Rightarrow> Returned (returned_value c serviceId ps, release_fn)
      | None \<Rightarrow> Threw (no_service_found serviceId))"
  unfolding getService_def by (rule getService_loop_first_truthy)

text \<open>A request that the second contribution serves, and one that nobody serves.\<close>

theorem getService_first_truthy_witness:
  "fst (getService [returns_zero, returns_object] ''X'' ()) = Returned (JObj 1, release_fn)
   \<and> fst (getService [returns_zero, returns_object] ''Y'' ()) = Threw (no_service_found ''Y'')"
proof -
  have x: "List.find (\<lambda>c. returns_truthy c ''X'' ()) [returns_zero, returns_object] = Some returns_object"
    by (simp add: returns_truthy_def returns_zero_def returns_object_def)
  have v: "returned_value returns_object ''X'' () = JObj 1"
    by (simp add: returned_value_def returns_object_def)
  have y: "List.find (\<lambda>c. returns_truthy c ''Y'' ()) [returns_zero, returns_object] = None"
    by (simp add: returns_truthy_def returns_zero_def returns_object_def)
  show ?thesis
    unfolding getService_first_truthy x y by (simp add: v)
qed

text \<open>
  Claim C4, as stated, fails for a contribution that returns a defined value that is
  falsy: the first contribution returns the number 0, and the service comes from the
  second one.
\<close>

theorem getService_first_defined_counterexample:
  "service_of (getService [returns_zero, returns_object] ''X'' ()) = Returned (JObj 1)
   \<and> getService_first_defined [returns_zero, returns_object] ''X'' () = Returned (JNum 0)"
  by (simp add: service_of_def getService_def getService_first_defined_def returns_zero_def
      returns_object_def returns_defined_def returned_value_def)

text \<open>
  Claim C2 at the terminal module's contribution: the terminal that the factory made goes
  through \<^verbatim>\<open>lifecycle.track\<close> and is returned as the service, and the release function of
  the result disposes nothing, so the tracked terminal is not disposed when the caller
  releases the service.
\<close>

theorem getService_release_disposes_nothing:
  "fst (getService [terminals_contribution ''terminals'' Returned] ''terminals'' (5::nat))
     = Returned (JObj 5, release_fn)
   \<and> 5 \<notin> set (release_fn ([]::nat list))"
  by (simp add: getService_def terminals_contribution_def ServiceLifecycleImpl_def release_fn_def)

section \<open>Properties of RPC proxies\<close>

lemma proxy_disposed_step: "proxy_disposed h \<Longrightarrow> proxy_disposed (proxy_step e h)"
proof (cases e)
  case (Read k)
  assume "proxy_disposed h"
  with Read show ?thesis by (simp add: RpcProxyHandler_get_def)
next
  case (Call v args)
  assume "proxy_disposed h"
  with Call show ?thesis by (cases v) simp_all
next
  case ConnectionClosed
  then show ?thesis by (simp add: onClose_def RpcProxyHandler_dispose_def)
next
  case (Notification eventName args)
  assume "proxy_disposed h"
  with Notification show ?thesis by (simp add: onNotification_def split: option.splits)
qed

lemma proxy_disposed_run: "proxy_disposed h \<Longrightarrow> proxy_disposed (proxy_run es h)"
  by (induction es arbitrary: h) (simp_all add: proxy_disposed_step)

lemma get_disposed: "proxy_disposed h \<Longrightarrow> RpcProxyHandler_get prop h = (Threw invalid_proxy, h)"
  by (simp add: RpcProxyHandler_get_def)

text \<open>
  Claim C7. After the connection has reported closed, and after the proxy's \<^verbatim>\<open>dispose\<close>
  function was called, every property read throws the error
  \<^verbatim>\<open>this instance is no longer valid!\<close> and changes nothing, whatever happened to the proxy
  in between.
\<close>

theorem proxy_invalid_after_close:
  "RpcProxyHandler_get prop (proxy_run es (onClose h))
     = (Threw invalid_proxy, proxy_run es (onClose h))
   \<and> RpcProxyHandler_get prop (proxy_run es (snd (call DisposeFunction args h)))
     = (Threw invalid_proxy, proxy_run es (snd (call DisposeFunction args h)))"
proof -
  have "proxy_disposed (onClose h)" by (simp add: onClose_def RpcProxyHandler_dispose_def)
  then have a: "proxy_disposed (proxy_run es (onClose h))" by (rule proxy_disposed_run)
  have "proxy_disposed (snd (call DisposeFunction args h))" by simp
  then have b: "proxy_disposed (proxy_run es (snd (call DisposeFunction args h)))"
    by (rule proxy_disposed_run)
  from a b show ?thesis by (simp add: get_disposed)
qed

text \<open>
  Claim C10. On a proxy that is not disposed, a read with a key that is not a string
  throws the error \<^verbatim>\<open>you can only index this proxy with strings\<close> and changes nothing.
\<close>

theorem proxy_symbol_key_throws:
  "\<not> proxy_disposed h \<Longrightarrow> RpcProxyHandler_get (SymbolKey k) h = (Threw string_keys_only, h)"
  by (simp add: RpcProxyHandler_get_def)

text \<open>A symbol key on a fresh proxy.\<close>

theorem proxy_symbol_key_throws_witness:
  "\<not> proxy_disposed (createProxy (\<lambda>name. False) :: unit RpcProxyHandler)
   \<and> RpcProxyHandler_get (SymbolKey 0) (createProxy (\<lambda>name. False) :: unit RpcProxyHandler)
       = (Threw (Error ''you can only index this proxy with strings''), createProxy (\<lambda>name. False))"
proof -
  have a: "\<not> proxy_disposed (createProxy (\<lambda>name. False) :: unit RpcProxyHandler)"
    by (simp add: createProxy_def RpcProxyHandler_new_def)
  from proxy_symbol_key_throws [OF a, of 0] a show ?thesis
    by (simp add: string_keys_only_def)
qed

lemma reflection_step: "reflection (proxy_step e h) = reflection h"
proof (cases e)
  case (Read k)
  then show ?thesis
    by (cases k) (simp_all add: RpcProxyHandler_get_def split: option.splits)
next
  case (Call v args)
  then show ?thesis by (cases v) simp_all
next
  case ConnectionClosed
  then show ?thesis by (simp add: onClose_def RpcProxyHandler_dispose_def)
next
  case (Notification eventName args)
  then show ?thesis by (simp add: onNotification_def split: option.splits)
qed

lemma reflection_run: "reflection (proxy_run es h) = reflection h"
  by (induction es arbitrary: h) (simp_all add: reflection_step)

lemma cache_ok_get: "cache_ok h \<Longrightarrow> cache_ok (snd (RpcProxyHandler_get prop h))"
proof (cases "prop")
  case (SymbolKey k)
  assume "cache_ok h"
  with SymbolKey show ?thesis by (simp add: RpcProxyHandler_get_def)
next
  case (StringKey name)
  assume ok: "cache_ok h"
  show ?thesis
  proof (cases "proxy_disposed h \<or> cache h prop \<noteq> None")
    case True
    with ok StringKey show ?thesis by (auto simp: RpcProxyHandler_get_def)
  next
    case False
    with ok StringKey have nd: "name \<noteq> ''dispose''" by (auto simp: cache_ok_def)
    with False ok StringKey show ?thesis
      by (auto simp: RpcProxyHandler_get_def cache_ok_def)
  qed
qed

lemma cache_ok_step: "cache_ok h \<Longrightarrow> cache_ok (proxy_step e h)"
proof (cases e)
  case (Read k)
  assume "cache_ok h"
  with Read show ?thesis by (simp add: cache_ok_get)
next
  case (Call v args)
  assume "cache_ok h"
  with Call show ?thesis by (cases v) (simp_all add: cache_ok_def)
next
  case ConnectionClosed
  then show ?thesis by (simp add: onClose_def RpcProxyHandler_dispose_def cache_ok_def)
next
  case (Notification eventName args)
  assume "cache_ok h"
  with Notification show ?thesis by (simp add: onNotification_def cache_ok_def split: option.splits)
qed

lemma cache_ok_run: "cache_ok h \<Longrightarrow> cache_ok (proxy_run es h)"
  by (induction es arbitrary: h) (simp_all add: cache_ok_step)

lemma cache_ok_createProxy: "cache_ok (createProxy isEventName)"
  by (simp add: cache_ok_def createProxy_def RpcProxyHandler_new_def)

lemma cache_kept_step:
  "cache h key = Some v \<Longrightarrow> \<not> proxy_disposed (proxy_step e h) \<Longrightarrow> cache (proxy_step e h) key = Some v"
proof (cases e)
  case (Read k)
  assume "cache h key = Some v" "\<not> proxy_disposed (proxy_step e h)"
  with Read show ?thesis
    by (cases k) (auto simp: RpcProxyHandler_get_def split: option.splits if_splits)
next
  case (Call w args)
  assume "cache h key = Some v" "\<not> proxy_disposed (proxy_step e h)"
  with Call show ?thesis by (cases w) (auto split: if_splits)
next
  case ConnectionClosed
  assume "\<not> proxy_disposed (proxy_step e h)"
  with ConnectionClosed show ?thesis by (simp add: onClose_def RpcProxyHandler_dispose_def)
next
  case (Notification eventName args)
  assume "cache h key = Some v"
  with Notification show ?thesis by (simp add: onNotification_def split: option.splits)
qed

lemma cache_kept_run:
  "cache h key = Some v \<Longrightarrow> \<not> proxy_disposed (proxy_run es h) \<Longrightarrow> cache (proxy_run es h) key = Some v"
proof (induction es arbitrary: h)
  case Nil
  then show ?case by simp
next
  case (Cons e es)
  from Cons.prems(2) have "\<not> proxy_disposed (proxy_step e h)"
    using proxy_disposed_run [of "proxy_step e h" es] by auto
  with Cons show ?case by (simp add: cache_kept_step)
qed

lemma get_cached:
  "\<not> proxy_disposed h \<Longrightarrow> cache h (StringKey name) = Some v \<Longrightarrow>
   RpcProxyHandler_get (StringKey name) h = (Returned v, h)"
  by (simp add: RpcProxyHandler_get_def)

text \<open>
  Claim C6. On a proxy made by \<^verbatim>\<open>createProxy\<close> that is still valid, reading a property
  whose name is not an event name (and not \<^verbatim>\<open>dispose\<close>) returns a method stub and sends
  nothing; calling the stub with arguments sends exactly one request, with that name and
  those arguments, and the call settles as the response to that request; and every later
  read of the property, as long as the proxy is valid, returns the same function object and
  changes nothing.
\<close>

theorem proxy_method_call_sends_one_request:
  assumes h: "h = proxy_run es (createProxy isEventName)"
      and valid: "\<not> proxy_disposed h"
      and not_event: "\<not> isEventName name" "name \<noteq> ''dispose''"
  shows "\<exists>f. fst (RpcProxyHandler_get (StringKey name) h) = Returned (MethodStub f name)
           \<and> requests (snd (RpcProxyHandler_get (StringKey name) h)) = requests h
           \<and> requests (snd (call (MethodStub f name) args (snd (RpcProxyHandler_get (StringKey name) h))))
               = requests h @ [(name, args)]
           \<and> settles responses (fst (call (MethodStub f name) args (snd (RpcProxyHandler_get (StringKey name) h))))
               = responses (length (requests h))
           \<and> (\<forall>later. \<not> proxy_disposed (proxy_run later (snd (RpcProxyHandler_get (StringKey name) h))) \<longrightarrow>
                 RpcProxyHandler_get (StringKey name) (proxy_run later (snd (RpcProxyHandler_get (StringKey name) h)))
                   = (Returned (MethodStub f name), proxy_run later (snd (RpcProxyHandler_get (StringKey name) h))))"
proof -
  define h1 where "h1 = snd (RpcProxyHandler_get (StringKey name) h)"
  have ok: "cache_ok h" unfolding h by (simp add: cache_ok_run cache_ok_createProxy)
  have same_reflection: "reflection h = isEventName"
    unfolding h by (simp add: reflection_run createProxy_def RpcProxyHandler_new_def)
  obtain f where got: "fst (RpcProxyHandler_get (StringKey name) h) = Returned (MethodStub f name)"
    and cached: "cache h1 (StringKey name) = Some (MethodStub f name)"
  proof (cases "cache h (StringKey name)")
    case None
    with valid not_event same_reflection
    have "fst (RpcProxyHandler_get (StringKey name) h) = Returned (MethodStub (allocated h) name)"
      and "cache h1 (StringKey name) = Some (MethodStub (allocated h) name)"
      by (simp_all add: h1_def RpcProxyHandler_get_def)
    then show ?thesis by (rule that)
  next
    case (Some v)
    from ok valid have "\<forall>n w. n \<noteq> ''dispose'' \<longrightarrow> cache h (StringKey n) = Some w \<longrightarrow>
        (if reflection h n then \<exists>e. w = EventOf e else \<exists>f. w = MethodStub f n)"
      by (simp add: cache_ok_def)
    with Some not_event(2) have "if reflection h name then \<exists>e. v = EventOf e else \<exists>f. v = MethodStub f name"
      by blast
    with not_event(1) same_reflection obtain f where "v = MethodStub f name"
      by auto
    with Some valid
    have "fst (RpcProxyHandler_get (StringKey name) h) = Returned (MethodStub f name)"
      and "cache h1 (StringKey name) = Some (MethodStub f name)"
      by (simp_all add: h1_def RpcProxyHandler_get_def)
    then show ?thesis by (rule that)
  qed
  have valid1: "\<not> proxy_disposed h1" and req1: "requests h1 = requests h"
    using valid by (simp_all add: h1_def RpcProxyHandler_get_def split: option.splits)
  have sent: "requests (snd (call (MethodStub f name) args h1)) = requests h @ [(name, args)]"
    by (simp add: req1)
  have answer: "settles responses (fst (call (MethodStub f name) args h1)) = responses (length (requests h))"
    by (simp add: req1)
  have again: "RpcProxyHandler_get (StringKey name) (proxy_run later h1)
                 = (Returned (MethodStub f name), proxy_run later h1)"
    if "\<not> proxy_disposed (proxy_run later h1)" for later
    using that cached by (simp add: get_cached cache_kept_run)
  from got req1 sent answer again show ?thesis
    unfolding h1_def by blast
qed

text \<open>\<^verbatim>\<open>proxy.foo(1, 2)\<close> on a fresh proxy, and \<^verbatim>\<open>proxy.foo\<close> read again.\<close>

theorem proxy_method_call_sends_one_request_witness:
  "fst (RpcProxyHandler_get (StringKey ''foo'') (createProxy on_prefixed :: unit RpcProxyHandler))
     = Returned (MethodStub 0 ''foo'')
   \<and> requests (snd (call (MethodStub 0 ''foo'') [JNum 1, JNum 2]
        (snd (RpcProxyHandler_get (StringKey ''foo'') (createProxy on_prefixed :: unit RpcProxyHandler)))))
     = [(''foo'', [JNum 1, JNum 2])]
   \<and> fst (RpcProxyHandler_get (StringKey ''foo'')
        (proxy_run [Call (MethodStub 0 ''foo'') [JNum 1, JNum 2]]
          (snd (RpcProxyHandler_get (StringKey ''foo'') (createProxy on_prefixed :: unit RpcProxyHandler)))))
     = Returned (MethodStub 0 ''foo'')"
proof -
  let ?h = "createProxy on_prefixed :: unit RpcProxyHandler"
  let ?h1 = "snd (RpcProxyHandler_get (StringKey ''foo'') ?h)"
  have a: "?h = proxy_run [] (createProxy on_prefixed)" "\<not> proxy_disposed ?h"
    "\<not> on_prefixed ''foo''" "''foo'' \<noteq> ''dispose''"
    by (simp_all add: createProxy_def RpcProxyHandler_new_def on_prefixed_def)
  have r0: "requests ?h = []" by (simp add: createProxy_def RpcProxyHandler_new_def)
  have first: "fst (RpcProxyHandler_get (StringKey ''foo'') ?h) = Returned (MethodStub 0 ''foo'')"
    by (simp add: createProxy_def RpcProxyHandler_new_def on_prefixed_def RpcProxyHandler_get_def)
  have v: "\<not> proxy_disposed (proxy_run [Call (MethodStub 0 ''foo'') [JNum 1, JNum 2]] ?h1)"
    by (simp add: createProxy_def RpcProxyHandler_new_def on_prefixed_def RpcProxyHandler_get_def)
  from proxy_method_call_sends_one_request [OF a, of "[JNum 1, JNum 2]" "\<lambda>n. Returned JUndefined"]
  obtain f where f: "fst (RpcProxyHandler_get (StringKey ''foo'') ?h) = Returned (MethodStub f ''foo'')"
    and s: "requests (snd (call (MethodStub f ''foo'') [JNum 1, JNum 2] ?h1)) = requests ?h @ [(''foo'', [JNum 1, JNum 2])]"
    and g: "\<forall>later. \<not> proxy_disposed (proxy_run later ?h1) \<longrightarrow>
              RpcProxyHandler_get (StringKey ''foo'') (proxy_run later ?h1)
                = (Returned (MethodStub f ''foo''), proxy_run later ?h1)"
    by blast
  from f first have f0: "f = 0" by simp
  from g v f0 have "fst (RpcProxyHandler_get (StringKey ''foo'')
      (proxy_run [Call (MethodStub 0 ''foo'') [JNum 1, JNum 2]] ?h1)) = Returned (MethodStub 0 ''foo'')"
    by (metis fst_conv)
  with first s f0 r0 show ?thesis by simp
qed

section \<open>Properties of route handlers\<close>

text \<open>
  Claim C8. The handler made by \<^verbatim>\<open>createRouteHandler\<close> calls \<^verbatim>\<open>next()\<close> when the
  parameters carry no string path and when the path does not match the pattern; when the
  path matches, it calls the wrapped handler with the parameters extended by the route (the
  pattern and the named segments that the matcher extracted) and with the same
  \<^verbatim>\<open>accept\<close> and \<^verbatim>\<open>next\<close>.
\<close>

theorem route_handler_declines_or_delegates:
  "(\<not> paramsContainsPath (path ps) \<longrightarrow>
      createRouteHandler Route pattern handler ps accept next = next None)
   \<and> (path ps = JStr p \<and> Route pattern p = None \<longrightarrow>
      createRouteHandler Route pattern handler ps accept next = next None)
   \<and> (path ps = JStr p \<and> Route pattern p = Some routeParams \<longrightarrow>
      createRouteHandler Route pattern handler ps accept next =
        handler \<lparr>path = JStr p, others = others ps,
                 route = \<lparr>spec = pattern, params = routeParams\<rparr>\<rparr> accept next)"
  by (cases "path ps") (simp_all add: createRouteHandler_def)

lemma segment_route_example:
  "segment_route ''/services/:serviceId'' ''/services/terminal'' = Some [(''serviceId'', ''terminal'')]"
  by (simp add: segment_route_def)

lemma segment_route_example2:
  "segment_route ''/services/:serviceId'' ''/other/terminal'' = None"
  by (simp add: segment_route_def)

lemma segment_route_proxying:
  "segment_route ''/backend-proxying/'' ''/backend-proxying/'' = Some []"
  by (simp add: segment_route_def)

text \<open>A matching path, a path that does not match, and parameters without a path.\<close>

theorem route_handler_declines_or_delegates_witness:
  "createRouteHandler segment_route ''/services/:serviceId'' (\<lambda>routed accept next. Some (params (route routed), accept))
      \<lparr>path = JStr ''/services/terminal'' :: unit jsval, others = ()\<rparr> (7::nat) (\<lambda>e. None)
     = Some ([(''serviceId'', ''terminal'')], 7)
   \<and> createRouteHandler segment_route ''/services/:serviceId'' (\<lambda>routed accept next. Some (params (route routed), accept))
      \<lparr>path = JStr ''/other/terminal'' :: unit jsval, others = ()\<rparr> (7::nat) (\<lambda>e. None)
     = None
   \<and> createRouteHandler segment_route ''/services/:serviceId'' (\<lambda>routed accept next. Some (params (route routed), accept))
      \<lparr>path = JUndefined :: unit jsval, others = ()\<rparr> (7::nat) (\<lambda>e. None)
     = None"
proof -
  let ?handler = "\<lambda>(routed :: (unit, unit) routed_params) (accept :: nat) (next :: error option \<Rightarrow> ((string \<times> string) list \<times> nat) option).
     Some (params (route routed), accept)"
  let ?next = "\<lambda>e :: error option. None :: ((string \<times> string) list \<times> nat) option"
  note t = route_handler_declines_or_delegates [of _ segment_route "''/services/:serviceId''" ?handler 7 ?next]
  have a: "path \<lparr>path = JStr ''/services/terminal'' :: unit jsval, others = ()\<rparr> = JStr ''/services/terminal''
      \<and> segment_route ''/services/:serviceId'' ''/services/terminal'' = Some [(''serviceId'', ''terminal'')]"
    by (simp add: segment_route_example)
  have b: "path \<lparr>path = JStr ''/other/terminal'' :: unit jsval, others = ()\<rparr> = JStr ''/other/terminal''
      \<and> segment_route ''/services/:serviceId'' ''/other/terminal'' = None"
    by (simp add: segment_route_example2)
  have c: "\<not> paramsContainsPath (path \<lparr>path = JUndefined :: unit jsval, others = ()\<rparr>)"
    by simp
  from t [of "\<lparr>path = JStr ''/services/terminal'', others = ()\<rparr>" "''/services/terminal''" "[(''serviceId'', ''terminal'')]"] a
  have 1: "createRouteHandler segment_route ''/services/:serviceId'' ?handler
      \<lparr>path = JStr ''/services/terminal'', others = ()\<rparr> 7 ?next = Some ([(''serviceId'', ''terminal'')], 7)"
    by simp
  from t [of "\<lparr>path = JStr ''/other/terminal'', others = ()\<rparr>" "''/other/terminal''"] b
  have 2: "createRouteHandler segment_route ''/services/:serviceId'' ?handler
      \<lparr>path = JStr ''/other/terminal'', others = ()\<rparr> 7 ?next = None"
    by blast
  from t [of "\<lparr>path = JUndefined, others = ()\<rparr>"] c
  have 3: "createRouteHandler segment_route ''/services/:serviceId'' ?handler
      \<lparr>path = JUndefined, others = ()\<rparr> 7 ?next = None"
    by blast
  from 1 2 3 show ?thesis by blast
qed

section \<open>Properties of the backend-proxying connection handler\<close>




lemma funpow_settled:
  "\<forall>d. state Deferred d \<noteq> Unresolved \<longrightarrow> state Deferred (reactions Deferred d) \<noteq> Unresolved \<Longrightarrow>
   state Deferred d \<noteq> Unresolved \<Longrightarrow> state Deferred ((reactions Deferred ^^ n) d) \<noteq> Unresolved"
  by (induction n) simp_all






end
